theory Spec2Isabelle
  imports Complex_Main
begin

section \<open>JavaScript values\<close>

text \<open>
  The module \<^verbatim>\<open>array-utils.js\<close> exports three functions over arrays: \<^verbatim>\<open>sum\<close>,
  \<^verbatim>\<open>findDuplicates\<close> and \<^verbatim>\<open>count\<close>. They call the built-ins \<^verbatim>\<open>Array.isArray\<close>,
  \<^verbatim>\<open>Number\<close>, \<^verbatim>\<open>Number.isNaN\<close>, \<^verbatim>\<open>JSON.stringify\<close>, \<^verbatim>\<open>String\<close>, \<^verbatim>\<open>Map\<close>,
  \<^verbatim>\<open>Set\<close> and \<^verbatim>\<open>Array.prototype.reduce\<close>, which are modelled here after ECMA-262.

  Scope of the value model. Array elements are \<^verbatim>\<open>undefined\<close>, \<^verbatim>\<open>null\<close>, booleans,
  numbers, strings and plain objects without own properties (\<^verbatim>\<open>{}\<close>), the latter
  identified by their reference. Symbols, BigInts, nested arrays and objects with
  user-defined \<^verbatim>\<open>toString\<close>, \<^verbatim>\<open>valueOf\<close> or \<^verbatim>\<open>toJSON\<close> are outside the model.
  A string is a list of code units below 256.
\<close>

text \<open>
  A Number is an IEEE-754 binary64 value. \<open>Fin q\<close> is the finite double whose exact
  value is the rational \<open>q\<close>; \<open>Fin 0\<close> is \<open>+0\<close> and \<open>NegZero\<close> is \<open>-0\<close>.
\<close>

datatype number = NaN | PosInf | NegInf | NegZero | Fin rat

datatype jsval =
    VUndefined
  | VNull
  | VBool bool
  | VNum number
  | VStr string
  | VObj nat

text \<open>
  An array is the list of its slots in index order; \<open>None\<close> is a hole of a sparse array
  (\<^verbatim>\<open>[1,,3]\<close>). An argument of the exported functions is an array or any other value.
\<close>

type_synonym array = "jsval option list"

datatype arg = Array array | NonArray jsval

datatype error = TypeError string

fun Array_isArray :: "arg \<Rightarrow> bool" where
  "Array_isArray (Array a) = True"
| "Array_isArray (NonArray v) = False"

text \<open>
  The array iterator behind \<^verbatim>\<open>for (const item of arr)\<close> visits every index below
  \<^verbatim>\<open>arr.length\<close> and reads a hole as \<^verbatim>\<open>undefined\<close>.
\<close>

definition iterate :: "array \<Rightarrow> jsval list" where
  "iterate a = map (\<lambda>slot. case slot of None \<Rightarrow> VUndefined | Some v \<Rightarrow> v) a"

text \<open>
  \<^verbatim>\<open>Array.prototype.reduce\<close> with an initial value: the callback receives the
  accumulator, the element and its index; holes are skipped (their index still
  counts); a callback that throws ends the reduction with that error.
\<close>

fun reduce :: "('b \<Rightarrow> jsval \<Rightarrow> nat \<Rightarrow> error + 'b) \<Rightarrow> nat \<Rightarrow> array \<Rightarrow> 'b \<Rightarrow> error + 'b" where
  "reduce f i [] acc = Inr acc"
| "reduce f i (None # rest) acc = reduce f (Suc i) rest acc"
| "reduce f i (Some v # rest) acc =
     (case f acc v i of Inl e \<Rightarrow> Inl e | Inr acc' \<Rightarrow> reduce f (Suc i) rest acc')"

section \<open>Numbers\<close>

subsection \<open>Rounding to binary64\<close>

fun bitlen :: "nat \<Rightarrow> nat" where
  "bitlen n = (if n = 0 then 0 else Suc (bitlen (n div 2)))"

declare bitlen.simps [simp del]

definition pow2 :: "int \<Rightarrow> rat" where
  "pow2 e = (if 0 \<le> e then of_int (2 ^ nat e) else 1 / of_int (2 ^ nat (- e)))"

text \<open>\<open>ilog2 a\<close> is \<open>\<lfloor>log\<^sub>2 a\<rfloor>\<close> for a positive rational \<open>a\<close>.\<close>

definition ilog2 :: "rat \<Rightarrow> int" where
  "ilog2 a = (case quotient_of a of (p, q) \<Rightarrow>
     let d = int (bitlen (nat p)) - int (bitlen (nat q))
     in if pow2 d \<le> a then d else d - 1)"

definition round_half_even :: "rat \<Rightarrow> int" where
  "round_half_even q = (let f = \<lfloor>q\<rfloor>; d = q - of_int f
     in if d < 1 / 2 then f else if 1 / 2 < d then f + 1
        else if even f then f else f + 1)"

text \<open>
  Round to nearest, ties to even: a real \<open>x\<close> becomes the nearest multiple of \<open>2\<^sup>e\<close>,
  where \<open>e\<close> leaves 53 significant bits and is at least \<open>-1074\<close> (subnormals); a result of
  magnitude \<open>2\<^sup>1\<^sup>0\<^sup>2\<^sup>4\<close> or more is an infinity, and a negative \<open>x\<close> that rounds to
  zero is \<open>-0\<close>.
\<close>

definition round_double :: "rat \<Rightarrow> number" where
  "round_double x = (if x = 0 then Fin 0 else
     let a = \<bar>x\<bar>;
         e = max (ilog2 a - 52) (- 1074);
         r = of_int (round_half_even (a / pow2 e)) * pow2 e
     in if pow2 1024 \<le> r then (if 0 < x then PosInf else NegInf)
        else if r = 0 then (if x < 0 then NegZero else Fin 0)
        else Fin (if x < 0 then - r else r))"

subsection \<open>Addition and the NaN test\<close>

definition Number_isNaN :: "number \<Rightarrow> bool" where
  "Number_isNaN n = (n = NaN)"

fun num_val :: "number \<Rightarrow> rat" where
  "num_val (Fin q) = q"
| "num_val _ = 0"

text \<open>
  \<^verbatim>\<open>x + y\<close> on Numbers (Number::add): NaN is contagious, opposite infinities give
  NaN, \<open>-0 + -0\<close> is \<open>-0\<close>, an exact sum of zero is \<open>+0\<close> otherwise, and any other
  exact sum is rounded.
\<close>

definition num_add :: "number \<Rightarrow> number \<Rightarrow> number" where
  "num_add x y =
     (if x = NaN \<or> y = NaN then NaN
      else if x = PosInf then (if y = NegInf then NaN else PosInf)
      else if x = NegInf then (if y = PosInf then NaN else NegInf)
      else if y = PosInf then PosInf
      else if y = NegInf then NegInf
      else if x = NegZero \<and> y = NegZero then NegZero
      else round_double (num_val x + num_val y))"

subsection \<open>Strings to numbers\<close>

text \<open>
  StringToNumber of ECMA-262. White space and line terminators are trimmed
  from both ends; what remains is empty (\<open>+0\<close>), a binary, octal or hexadecimal
  integer literal without sign, or an optionally signed decimal literal or
  \<^verbatim>\<open>Infinity\<close>; anything else is NaN. The mathematical value of the literal is
  rounded to the nearest double.
\<close>

definition is_space :: "char \<Rightarrow> bool" where
  "is_space c = ((of_char c :: nat) \<in> {9, 10, 11, 12, 13, 32, 160})"

definition is_digit :: "char \<Rightarrow> bool" where
  "is_digit c = (48 \<le> (of_char c :: nat) \<and> (of_char c :: nat) \<le> 57)"

text \<open>The value of a hexadecimal digit, \<open>None\<close> for any other character.\<close>

definition hex_val :: "char \<Rightarrow> nat option" where
  "hex_val c = (let n = (of_char c :: nat) in
     if 48 \<le> n \<and> n \<le> 57 then Some (n - 48)
     else if 65 \<le> n \<and> n \<le> 70 then Some (n - 55)
     else if 97 \<le> n \<and> n \<le> 102 then Some (n - 87)
     else None)"

text \<open>
  The value of a non-empty string of digits in the given radix, \<open>None\<close> when the
  string is empty or holds a character that is not a digit of that radix.
\<close>

fun digits_val :: "nat \<Rightarrow> nat \<Rightarrow> string \<Rightarrow> nat option" where
  "digits_val radix acc [] = Some acc"
| "digits_val radix acc (c # cs) =
     (case hex_val c of
        None \<Rightarrow> None
      | Some d \<Rightarrow> if d < radix then digits_val radix (radix * acc + d) cs else None)"

definition radix_literal :: "nat \<Rightarrow> string \<Rightarrow> nat option" where
  "radix_literal radix ds = (if ds = [] then None else digits_val radix 0 ds)"

definition trim :: "string \<Rightarrow> string" where
  "trim s = rev (dropWhile is_space (rev (dropWhile is_space s)))"

definition pow10 :: "int \<Rightarrow> rat" where
  "pow10 e = (if 0 \<le> e then of_int (10 ^ nat e) else 1 / of_int (10 ^ nat (- e)))"

text \<open>
  The exponent part of a decimal literal: nothing (exponent 0), or \<^verbatim>\<open>e\<close> or \<^verbatim>\<open>E\<close>,
  an optional sign and at least one digit.
\<close>

definition exponent_part :: "string \<Rightarrow> int option" where
  "exponent_part s =
     (case s of
        [] \<Rightarrow> Some 0
      | c # r \<Rightarrow>
          if c = CHR ''e'' \<or> c = CHR ''E'' then
            (case r of
               [] \<Rightarrow> None
             | d # r' \<Rightarrow>
                 if d = CHR ''-'' then map_option (\<lambda>n. - int n) (radix_literal 10 r')
                 else if d = CHR ''+'' then map_option int (radix_literal 10 r')
                 else map_option int (radix_literal 10 r))
          else None)"

text \<open>
  StrUnsignedDecimalLiteral other than \<^verbatim>\<open>Infinity\<close>: digits, an optional point with
  further digits (at least one digit on one side of the point), an optional exponent.
  The result is the exact mathematical value.
\<close>

definition unsigned_decimal :: "string \<Rightarrow> rat option" where
  "unsigned_decimal s =
     (let ip = takeWhile is_digit s;
          r1 = dropWhile is_digit s;
          has_point = (r1 \<noteq> [] \<and> hd r1 = CHR ''.'');
          fp = (if has_point then takeWhile is_digit (tl r1) else []);
          r2 = (if has_point then dropWhile is_digit (tl r1) else r1)
      in if ip = [] \<and> fp = [] then None
         else case (digits_val 10 0 (ip @ fp), exponent_part r2) of
                (Some m, Some ex) \<Rightarrow> Some (of_nat m * pow10 (ex - int (length fp)))
              | _ \<Rightarrow> None)"

definition signed_decimal :: "bool \<Rightarrow> string \<Rightarrow> number" where
  "signed_decimal neg s =
     (if s = ''Infinity'' then (if neg then NegInf else PosInf)
      else case unsigned_decimal s of
             None \<Rightarrow> NaN
           | Some mv \<Rightarrow>
               if mv = 0 then (if neg then NegZero else Fin 0)
               else round_double (if neg then - mv else mv))"

definition radix_prefix :: "string \<Rightarrow> nat option" where
  "radix_prefix s =
     (case s of
        a # b # _ \<Rightarrow>
          if a \<noteq> CHR ''0'' then None
          else if b = CHR ''b'' \<or> b = CHR ''B'' then Some 2
          else if b = CHR ''o'' \<or> b = CHR ''O'' then Some 8
          else if b = CHR ''x'' \<or> b = CHR ''X'' then Some 16
          else None
      | _ \<Rightarrow> None)"

definition StringToNumber :: "string \<Rightarrow> number" where
  "StringToNumber str =
     (let s = trim str in
      if s = [] then Fin 0
      else case radix_prefix s of
             Some radix \<Rightarrow>
               (case radix_literal radix (drop 2 s) of
                  None \<Rightarrow> NaN
                | Some m \<Rightarrow> round_double (of_nat m))
           | None \<Rightarrow>
               if hd s = CHR ''-'' then signed_decimal True (tl s)
               else if hd s = CHR ''+'' then signed_decimal False (tl s)
               else signed_decimal False s)"

text \<open>
  \<^verbatim>\<open>Number(v)\<close>, that is ToNumber of ECMA-262. A plain object is first converted
  to the primitive \<^verbatim>\<open>"[object Object]"\<close>, which is not a numeric literal.
\<close>

fun ToNumber :: "jsval \<Rightarrow> number" where
  "ToNumber VUndefined = NaN"
| "ToNumber VNull = Fin 0"
| "ToNumber (VBool b) = (if b then Fin 1 else Fin 0)"
| "ToNumber (VNum n) = n"
| "ToNumber (VStr s) = StringToNumber s"
| "ToNumber (VObj r) = StringToNumber ''[object Object]''"

subsection \<open>Numbers to strings\<close>

fun declen :: "nat \<Rightarrow> nat" where
  "declen n = (if n = 0 then 0 else Suc (declen (n div 10)))"

declare declen.simps [simp del]

fun digits_of :: "nat \<Rightarrow> string" where
  "digits_of n =
     (if n < 10 then [''0123456789'' ! n]
      else digits_of (n div 10) @ [''0123456789'' ! (n mod 10)])"

declare digits_of.simps [simp del]

text \<open>
  For a positive rational \<open>x\<close>, the integer \<open>n\<close> with \<open>10\<^sup>n\<^sup>-\<^sup>1 \<le> x < 10\<^sup>n\<close>.
\<close>

definition dec_exponent :: "rat \<Rightarrow> int" where
  "dec_exponent x = (case quotient_of x of (p, q) \<Rightarrow>
     let d = int (declen (nat p)) - int (declen (nat q))
     in if pow10 d \<le> x then d + 1 else d)"

text \<open>
  Number::toString of ECMA-262, step 5: integers \<open>n\<close>, \<open>k\<close>, \<open>s\<close> with
  \<open>k \<ge> 1\<close>, \<open>10\<^sup>k\<^sup>-\<^sup>1 \<le> s < 10\<^sup>k\<close>, such that \<open>s \<times> 10\<^sup>n\<^sup>-\<^sup>k\<close> rounds to \<open>x\<close>, and \<open>k\<close> as
  small as possible. Where several \<open>s\<close> qualify, the standard leaves the choice to the
  implementation and recommends the one closest to \<open>x\<close>, the even one on a tie; that
  choice is taken here. \<open>shortest_from k x\<close> tries the lengths \<open>k\<close> to 17 in turn; 17
  digits always identify a double.
\<close>

definition candidate :: "rat \<Rightarrow> int \<Rightarrow> nat \<Rightarrow> (int \<times> nat) option" where
  "candidate x n k =
     (let scale = pow10 (n - int k);
          lo = nat \<lfloor>x / scale\<rfloor>;
          hi = Suc lo;
          lo_ok = (round_double (of_nat lo * scale) = Fin x);
          hi_ok = (round_double (of_nat hi * scale) = Fin x);
          dlo = x - of_nat lo * scale;
          dhi = of_nat hi * scale - x;
          s = (if lo_ok \<and> hi_ok
               then (if dlo < dhi \<or> (dlo = dhi \<and> even lo) then lo else hi)
               else if lo_ok then lo else hi)
      in if lo_ok \<or> hi_ok
         then Some (if s = 10 ^ k then (n + 1, 10 ^ (k - 1)) else (n, s))
         else None)"

function shortest_from :: "nat \<Rightarrow> rat \<Rightarrow> int \<times> nat" where
  "shortest_from k x =
     (case candidate x (dec_exponent x) k of
        Some ns \<Rightarrow> ns
      | None \<Rightarrow>
          if k < 17 then shortest_from (Suc k) x
          else (dec_exponent x, nat \<lfloor>x / pow10 (dec_exponent x - 17)\<rfloor>))"
  by pat_completeness auto
termination
  by (relation "measure (\<lambda>(k, x). 17 - k)") auto

declare shortest_from.simps [simp del]

text \<open>Steps 6 to 10: the digits of \<open>s\<close> laid out in decimal or exponential notation.\<close>

definition layout :: "int \<Rightarrow> string \<Rightarrow> string" where
  "layout n ds =
     (let k = int (length ds) in
      if k \<le> n \<and> n \<le> 21 then ds @ replicate (nat (n - k)) CHR ''0''
      else if 0 < n \<and> n \<le> 21 then take (nat n) ds @ ''.'' @ drop (nat n) ds
      else if - 6 < n \<and> n \<le> 0 then ''0.'' @ replicate (nat (- n)) CHR ''0'' @ ds
      else (if k = 1 then ds else hd ds # ''.'' @ tl ds)
           @ ''e'' @ (if n - 1 < 0 then ''-'' else ''+'') @ digits_of (nat \<bar>n - 1\<bar>))"

definition positive_toString :: "rat \<Rightarrow> string" where
  "positive_toString x = (case shortest_from 1 x of (n, s) \<Rightarrow> layout n (digits_of s))"

fun Number_toString :: "number \<Rightarrow> string" where
  "Number_toString NaN = ''NaN''"
| "Number_toString PosInf = ''Infinity''"
| "Number_toString NegInf = ''-Infinity''"
| "Number_toString NegZero = ''0''"
| "Number_toString (Fin q) =
     (if q = 0 then ''0''
      else if q < 0 then ''-'' @ positive_toString (- q)
      else positive_toString q)"

section \<open>Strings\<close>

text \<open>
  \<^verbatim>\<open>String(v)\<close>, that is ToString of ECMA-262. The inherited \<^verbatim>\<open>toString\<close> of a
  plain object returns \<^verbatim>\<open>"[object Object]"\<close>.
\<close>

fun ToString :: "jsval \<Rightarrow> string" where
  "ToString VUndefined = ''undefined''"
| "ToString VNull = ''null''"
| "ToString (VBool b) = (if b then ''true'' else ''false'')"
| "ToString (VNum n) = Number_toString n"
| "ToString (VStr s) = s"
| "ToString (VObj r) = ''[object Object]''"

text \<open>
  QuoteJSONString of ECMA-262: the string between double quotes, with the
  two-character escapes for backspace, tab, line feed, form feed, carriage return,
  the double quote and the backslash, and \<^verbatim>\<open>\u00xx\<close> for any other control character.
\<close>

definition hex_digit :: "nat \<Rightarrow> char" where
  "hex_digit d = ''0123456789abcdef'' ! d"

definition quote_char :: "char \<Rightarrow> string" where
  "quote_char c = (let n = (of_char c :: nat) in
     if n = 8 then [CHR 0x5C, CHR ''b'']
     else if n = 9 then [CHR 0x5C, CHR ''t'']
     else if n = 10 then [CHR 0x5C, CHR ''n'']
     else if n = 12 then [CHR 0x5C, CHR ''f'']
     else if n = 13 then [CHR 0x5C, CHR ''r'']
     else if n = 34 then [CHR 0x5C, CHR 0x22]
     else if n = 92 then [CHR 0x5C, CHR 0x5C]
     else if n < 32 then [CHR 0x5C, CHR ''u'', CHR ''0'', CHR ''0'', hex_digit (n div 16), hex_digit (n mod 16)]
     else [c])"

definition QuoteJSONString :: "string \<Rightarrow> string" where
  "QuoteJSONString s = CHR 0x22 # concat (map quote_char s) @ [CHR 0x22]"

text \<open>
  \<^verbatim>\<open>JSON.stringify(v)\<close> with one argument. The result is \<^verbatim>\<open>undefined\<close> (here \<open>None\<close>)
  for \<^verbatim>\<open>undefined\<close>; a number that is not finite is serialised as \<^verbatim>\<open>null\<close>; a plain
  object without own properties as \<^verbatim>\<open>{}\<close>.
\<close>

fun JSON_stringify :: "jsval \<Rightarrow> string option" where
  "JSON_stringify VUndefined = None"
| "JSON_stringify VNull = Some ''null''"
| "JSON_stringify (VBool b) = Some (if b then ''true'' else ''false'')"
| "JSON_stringify (VNum n) =
     Some (if n = NaN \<or> n = PosInf \<or> n = NegInf then ''null'' else Number_toString n)"
| "JSON_stringify (VStr s) = Some (QuoteJSONString s)"
| "JSON_stringify (VObj r) = Some ''{}''"

text \<open>
  A substitution \<^verbatim>\<open>${e}\<close> of a template literal applies ToString to the value of
  \<^verbatim>\<open>e\<close>: to an array index, which is a Number, and to the result of
  \<^verbatim>\<open>JSON.stringify\<close>, which is a string or \<^verbatim>\<open>undefined\<close>.
\<close>

definition subst_index :: "nat \<Rightarrow> string" where
  "subst_index i = ToString (VNum (Fin (of_nat i)))"

definition subst_json :: "string option \<Rightarrow> string" where
  "subst_json r = (case r of None \<Rightarrow> ToString VUndefined | Some s \<Rightarrow> ToString (VStr s))"

section \<open>Map and Set\<close>

text \<open>
  \<^verbatim>\<open>Map\<close> and \<^verbatim>\<open>Set\<close> compare keys with SameValueZero: primitives by value, with NaN
  equal to itself and \<open>-0\<close> stored as \<open>+0\<close>, and objects by reference. On canonical keys
  this is equality of \<^typ>\<open>jsval\<close>.
\<close>

fun canonical :: "jsval \<Rightarrow> jsval" where
  "canonical (VNum NegZero) = VNum (Fin 0)"
| "canonical v = v"

definition Map_get :: "(jsval \<rightharpoonup> 'v) \<Rightarrow> jsval \<Rightarrow> 'v option" where
  "Map_get m k = m (canonical k)"

definition Map_set :: "(jsval \<rightharpoonup> 'v) \<Rightarrow> jsval \<Rightarrow> 'v \<Rightarrow> (jsval \<rightharpoonup> 'v)" where
  "Map_set m k v = m(canonical k \<mapsto> v)"

text \<open>A \<^verbatim>\<open>Set\<close> is the list of its members in insertion order.\<close>

definition Set_has :: "jsval list \<Rightarrow> jsval \<Rightarrow> bool" where
  "Set_has s k = (canonical k \<in> set s)"

definition Set_add :: "jsval list \<Rightarrow> jsval \<Rightarrow> jsval list" where
  "Set_add s k = (if canonical k \<in> set s then s else s @ [canonical k])"

definition Set_delete :: "jsval list \<Rightarrow> jsval \<Rightarrow> jsval list" where
  "Set_delete s k = removeAll (canonical k) s"

text \<open>
  \<^verbatim>\<open>x || 0\<close> where \<^verbatim>\<open>x\<close> is a stored count or \<^verbatim>\<open>undefined\<close>: the count unless it is
  missing or zero. Counts are Numbers in the source; they stay below the length of an
  array, less than \<open>2\<^sup>3\<^sup>2\<close>, where \<^verbatim>\<open>+ 1\<close> is exact, so they are natural numbers here.
\<close>

definition or_zero :: "nat option \<Rightarrow> nat" where
  "or_zero x = (case x of None \<Rightarrow> 0 | Some c \<Rightarrow> if c = 0 then 0 else c)"

section \<open>The module\<close>

subsection \<open>sum\<close>

text \<open>
  The error for an element that is not numeric, with the message built by the template
  literal in \<^verbatim>\<open>sum\<close>.
\<close>

definition not_numeric :: "nat \<Rightarrow> jsval \<Rightarrow> error" where
  "not_numeric i v =
     TypeError (''sum: element at index '' @ subst_index i
                @ '' is not numeric: '' @ subst_json (JSON_stringify v))"

text \<open>The callback of the reduction in \<^verbatim>\<open>sum\<close>.\<close>

definition sum_step :: "number \<Rightarrow> jsval \<Rightarrow> nat \<Rightarrow> error + number" where
  "sum_step acc v i =
     (let n = ToNumber v in
      if Number_isNaN n then Inl (not_numeric i v) else Inr (num_add acc n))"

definition sum_js :: "arg \<Rightarrow> error + number" where
  "sum_js arr =
     (case arr of
        NonArray v \<Rightarrow> Inl (TypeError ''sum expects an array'')
      | Array a \<Rightarrow> reduce sum_step 0 a (Fin 0))"

subsection \<open>findDuplicates\<close>

text \<open>The body of the first loop, on the state \<open>(counts, duplicates)\<close>.\<close>

definition tally :: "(jsval \<rightharpoonup> nat) \<times> jsval list \<Rightarrow> jsval \<Rightarrow> (jsval \<rightharpoonup> nat) \<times> jsval list" where
  "tally st item =
     (case st of (counts, duplicates) \<Rightarrow>
        let prev = or_zero (Map_get counts item);
            counts' = Map_set counts item (prev + 1);
            duplicates' = (if prev + 1 = 2 then Set_add duplicates item else duplicates)
        in (counts', duplicates'))"

text \<open>The body of the second loop, on the state \<open>(result, duplicates)\<close>.\<close>

definition emit :: "jsval list \<times> jsval list \<Rightarrow> jsval \<Rightarrow> jsval list \<times> jsval list" where
  "emit st item =
     (case st of (result, duplicates) \<Rightarrow>
        if Set_has duplicates item
        then (result @ [item], Set_delete duplicates item)
        else (result, duplicates))"

definition findDuplicates :: "arg \<Rightarrow> error + jsval list" where
  "findDuplicates arr =
     (case arr of
        NonArray v \<Rightarrow> Inl (TypeError ''findDuplicates expects an array'')
      | Array a \<Rightarrow>
          let (counts, duplicates) = foldl tally (Map.empty, []) (iterate a);
              (result, remaining) = foldl emit ([], duplicates) (iterate a)
          in Inr result)"

subsection \<open>count\<close>

text \<open>
  \<^verbatim>\<open>Object.create(null)\<close> has no prototype: reading \<^verbatim>\<open>map[key]\<close> finds own
  properties only, and every key can be assigned. The object is the partial function
  from its own keys to their values. The body of the loop:
\<close>

definition count_step :: "(string \<rightharpoonup> nat) \<Rightarrow> jsval \<Rightarrow> (string \<rightharpoonup> nat)" where
  "count_step m item = (let key = ToString item in m(key \<mapsto> or_zero (m key) + 1))"

definition count :: "arg \<Rightarrow> error + (string \<rightharpoonup> nat)" where
  "count arr =
     (case arr of
        NonArray v \<Rightarrow> Inl (TypeError ''count expects an array'')
      | Array a \<Rightarrow> Inr (foldl count_step Map.empty (iterate a)))"

section \<open>Notions used in the statements\<close>

text \<open>The elements of an array in index order, holes left out.\<close>

fun present :: "array \<Rightarrow> jsval list" where
  "present [] = []"
| "present (None # rest) = present rest"
| "present (Some v # rest) = v # present rest"

text \<open>
  The errors for an argument that is not an array: the \<^verbatim>\<open>TypeError\<close> of the first
  line of each function.
\<close>

definition InvalidArgument :: "error \<Rightarrow> bool" where
  "InvalidArgument e =
     (e = TypeError ''sum expects an array''
      \<or> e = TypeError ''findDuplicates expects an array''
      \<or> e = TypeError ''count expects an array'')"

text \<open>
  SameValueZero, the equality of \<^verbatim>\<open>Map\<close> and \<^verbatim>\<open>Set\<close> keys; the number of elements of
  a list equal to a value in that sense; the index of the first such element (the length
  of the list when there is none); the index of the second such element.
\<close>

definition SameValueZero :: "jsval \<Rightarrow> jsval \<Rightarrow> bool" where
  "SameValueZero x y = (canonical x = canonical y)"

definition occurrences :: "jsval \<Rightarrow> jsval list \<Rightarrow> nat" where
  "occurrences v xs = length (filter (SameValueZero v) xs)"

definition first_index :: "jsval \<Rightarrow> jsval list \<Rightarrow> nat" where
  "first_index v xs = length (takeWhile (\<lambda>x. \<not> SameValueZero v x) xs)"

definition second_index :: "jsval \<Rightarrow> jsval list \<Rightarrow> nat" where
  "second_index v xs =
     (let i = first_index v xs in Suc i + first_index v (drop (Suc i) xs))"

text \<open>
  Equal inputs and equal results of two runs. Two Numbers are the same when they are
  equal as \<^verbatim>\<open>Map\<close> keys; two arguments are the same when both are arrays of one length,
  with holes at the same indices and elements that are pairwise the same, or neither is
  an array and the two values are the same.
\<close>

definition same_number :: "number \<Rightarrow> number \<Rightarrow> bool" where
  "same_number x y = SameValueZero (VNum x) (VNum y)"

fun same_arg :: "arg \<Rightarrow> arg \<Rightarrow> bool" where
  "same_arg (Array a) (Array b) = list_all2 (rel_option SameValueZero) a b"
| "same_arg (NonArray v) (NonArray w) = SameValueZero v w"
| "same_arg _ _ = False"

text \<open>
  The result of the second loop of \<^verbatim>\<open>findDuplicates\<close> as a recursive function of the set
  of keys still in \<^verbatim>\<open>duplicates\<close>; used in the proofs.
\<close>

fun pick :: "jsval set \<Rightarrow> jsval list \<Rightarrow> jsval list" where
  "pick S [] = []"
| "pick S (x # xs) =
     (if canonical x \<in> S then x # pick (S - {canonical x}) xs else pick S xs)"

section \<open>The reduction in sum\<close>

lemma sum_step_ok: "ToNumber v \<noteq> NaN \<Longrightarrow> sum_step acc v i = Inr (num_add acc (ToNumber v))"
  by (simp add: sum_step_def Number_isNaN_def)

lemma sum_step_bad: "ToNumber v = NaN \<Longrightarrow> sum_step acc v i = Inl (not_numeric i v)"
  by (simp add: sum_step_def Number_isNaN_def)

lemma reduce_sum_ok:
  "\<forall>v\<in>set (present a). ToNumber v \<noteq> NaN \<Longrightarrow>
   reduce sum_step i a acc = Inr (foldl num_add acc (map ToNumber (present a)))"
proof (induction a arbitrary: i acc)
  case Nil
  show ?case by simp
next
  case (Cons slot rest)
  show ?case
  proof (cases slot)
    case None
    with Cons show ?thesis by simp
  next
    case (Some v)
    with Cons.prems have "ToNumber v \<noteq> NaN" by simp
    with Some Cons show ?thesis by (simp add: sum_step_ok)
  qed
qed

lemma reduce_sum_bad:
  "\<exists>v\<in>set (present a). ToNumber v = NaN \<Longrightarrow>
   \<exists>k v. k < length a \<and> a ! k = Some v \<and> ToNumber v = NaN
     \<and> (\<forall>j<k. \<forall>u. a ! j = Some u \<longrightarrow> ToNumber u \<noteq> NaN)
     \<and> reduce sum_step i a acc = Inl (not_numeric (i + k) v)"
proof (induction a arbitrary: i acc)
  case Nil
  then show ?case by simp
next
  case (Cons slot rest)
  show ?case
  proof (cases "\<exists>v. slot = Some v \<and> ToNumber v = NaN")
    case True
    then obtain v where v: "slot = Some v" "ToNumber v = NaN" by blast
    then have "reduce sum_step i (slot # rest) acc = Inl (not_numeric (i + 0) v)"
      by (simp add: sum_step_bad)
    with v show ?thesis by (intro exI [of _ 0] exI [of _ v]) simp
  next
    case False
    with Cons.prems have "\<exists>v\<in>set (present rest). ToNumber v = NaN"
      by (cases slot) auto
    from Cons.IH [OF this, of "Suc i" "case slot of None \<Rightarrow> acc | Some v \<Rightarrow> num_add acc (ToNumber v)"]
    obtain k v where kv: "k < length rest" "rest ! k = Some v" "ToNumber v = NaN"
      "\<forall>j<k. \<forall>u. rest ! j = Some u \<longrightarrow> ToNumber u \<noteq> NaN"
      "reduce sum_step (Suc i) rest (case slot of None \<Rightarrow> acc | Some v \<Rightarrow> num_add acc (ToNumber v))
         = Inl (not_numeric (Suc i + k) v)"
      by blast
    have step: "reduce sum_step i (slot # rest) acc = Inl (not_numeric (i + Suc k) v)"
      using False kv(5) by (cases slot) (simp_all add: sum_step_ok)
    have before: "\<forall>j<Suc k. \<forall>u. (slot # rest) ! j = Some u \<longrightarrow> ToNumber u \<noteq> NaN"
    proof (intro allI impI)
      fix j u assume "j < Suc k" "(slot # rest) ! j = Some u"
      then show "ToNumber u \<noteq> NaN"
        using False kv(4) by (cases j) auto
    qed
    from kv(1-3) step before show ?thesis
      by (intro exI [of _ "Suc k"] exI [of _ v]) simp
  qed
qed


text \<open>
  Claim C3. When every element of the array converts to a number other than NaN,
  \<^verbatim>\<open>sum\<close> returns the left-to-right fold of Number addition over the converted
  elements in index order, starting from \<open>+0\<close>. In particular the sum of the empty
  array is 0, \<^verbatim>\<open>sum([1,2,3])\<close> is 6 and \<^verbatim>\<open>sum(["1","2.5",3])\<close> is 6.5.
\<close>

theorem sum_left_fold:
  "((\<forall>v\<in>set (present a). ToNumber v \<noteq> NaN) \<longrightarrow>
      sum_js (Array a) = Inr (foldl num_add (Fin 0) (map ToNumber (present a))))
   \<and> sum_js (Array []) = Inr (Fin 0)
   \<and> sum_js (Array [Some (VNum (Fin 1)), Some (VNum (Fin 2)), Some (VNum (Fin 3))]) = Inr (Fin 6)
   \<and> sum_js (Array [Some (VStr ''1''), Some (VStr ''2.5''), Some (VNum (Fin 3))]) = Inr (Fin (13 / 2))"
proof (intro conjI impI)
  assume "\<forall>v\<in>set (present a). ToNumber v \<noteq> NaN"
  then show "sum_js (Array a) = Inr (foldl num_add (Fin 0) (map ToNumber (present a)))"
    by (simp add: sum_js_def reduce_sum_ok)
next
  show "sum_js (Array []) = Inr (Fin 0)"
    by (simp add: sum_js_def)
next
  show "sum_js (Array [Some (VNum (Fin 1)), Some (VNum (Fin 2)), Some (VNum (Fin 3))]) = Inr (Fin 6)"
    by code_simp
next
  show "sum_js (Array [Some (VStr ''1''), Some (VStr ''2.5''), Some (VNum (Fin 3))]) = Inr (Fin (13 / 2))"
    by code_simp
qed

theorem sum_left_fold_witness:
  "list_all (\<lambda>v. ToNumber v \<noteq> NaN) (present [Some (VStr ''1''), None, Some (VStr ''2.5''), Some (VBool True)])
   \<and> sum_js (Array [Some (VStr ''1''), None, Some (VStr ''2.5''), Some (VBool True)]) = Inr (Fin (9 / 2))"
proof -
  let ?a = "[Some (VStr ''1''), None, Some (VStr ''2.5''), Some (VBool True)]"
  have h: "\<forall>v\<in>set (present ?a). ToNumber v \<noteq> NaN"
    by code_simp
  have e: "foldl num_add (Fin 0) (map ToNumber (present ?a)) = Fin (9 / 2)"
    by code_simp
  from sum_left_fold [of ?a] h
  have "sum_js (Array ?a) = Inr (foldl num_add (Fin 0) (map ToNumber (present ?a)))"
    by blast
  with h e show ?thesis by (simp add: list_all_iff)
qed

text \<open>
  Claim C4. When some element of the array converts to NaN, \<^verbatim>\<open>sum\<close> fails at the
  element of lowest index that does: no element before it converts to NaN, the result is
  the error and no number, and the message of the error holds that index and the
  \<^verbatim>\<open>JSON.stringify\<close> text of that element. \<^verbatim>\<open>sum([1,"x",3])\<close> fails at index 1.
\<close>

theorem sum_first_invalid:
  "((\<exists>v\<in>set (present a). ToNumber v = NaN) \<longrightarrow>
      (\<exists>i v. i < length a \<and> a ! i = Some v \<and> ToNumber v = NaN
         \<and> (\<forall>j<i. \<forall>u. a ! j = Some u \<longrightarrow> ToNumber u \<noteq> NaN)
         \<and> sum_js (Array a) = Inl (not_numeric i v)))
   \<and> not_numeric i v = TypeError (''sum: element at index '' @ ToString (VNum (Fin (of_nat i)))
         @ '' is not numeric: '' @ (case JSON_stringify v of None \<Rightarrow> ''undefined'' | Some s \<Rightarrow> s))
   \<and> sum_js (Array [Some (VNum (Fin 1)), Some (VStr ''x''), Some (VNum (Fin 3))])
       = Inl (TypeError (''sum: element at index 1 is not numeric: '' @ [CHR 0x22, CHR ''x'', CHR 0x22]))"
proof (intro conjI impI)
  assume "\<exists>v\<in>set (present a). ToNumber v = NaN"
  from reduce_sum_bad [OF this, of 0 "Fin 0"]
  show "\<exists>i v. i < length a \<and> a ! i = Some v \<and> ToNumber v = NaN
         \<and> (\<forall>j<i. \<forall>u. a ! j = Some u \<longrightarrow> ToNumber u \<noteq> NaN)
         \<and> sum_js (Array a) = Inl (not_numeric i v)"
    by (simp add: sum_js_def)
next
  show "not_numeric i v = TypeError (''sum: element at index '' @ ToString (VNum (Fin (of_nat i)))
         @ '' is not numeric: '' @ (case JSON_stringify v of None \<Rightarrow> ''undefined'' | Some s \<Rightarrow> s))"
    by (simp add: not_numeric_def subst_index_def subst_json_def split: option.split)
next
  show "sum_js (Array [Some (VNum (Fin 1)), Some (VStr ''x''), Some (VNum (Fin 3))])
       = Inl (TypeError (''sum: element at index 1 is not numeric: '' @ [CHR 0x22, CHR ''x'', CHR 0x22]))"
    by code_simp
qed

theorem sum_first_invalid_witness:
  "(\<exists>v\<in>set (present [Some (VNum (Fin 1)), None, Some (VStr ''x''), Some VUndefined]). ToNumber v = NaN)
   \<and> sum_js (Array [Some (VNum (Fin 1)), None, Some (VStr ''x''), Some VUndefined])
       = Inl (not_numeric 2 (VStr ''x''))"
proof -
  let ?a = "[Some (VNum (Fin 1)), None, Some (VStr ''x''), Some VUndefined]"
  have h: "\<exists>v\<in>set (present ?a). ToNumber v = NaN"
    by code_simp
  with sum_first_invalid [of ?a]
  obtain i v where iv: "i < length ?a" "?a ! i = Some v" "ToNumber v = NaN"
    "\<forall>j<i. \<forall>u. ?a ! j = Some u \<longrightarrow> ToNumber u \<noteq> NaN"
    "sum_js (Array ?a) = Inl (not_numeric i v)"
    by blast
  have x: "ToNumber (VStr ''x'') = NaN" by code_simp
  have one: "ToNumber (VNum (Fin 1)) \<noteq> NaN" by simp
  have "i = 2"
  proof -
    have "i \<noteq> 3"
    proof
      assume "i = 3"
      with iv(4) [rule_format, of 2 "VStr ''x''"] have "ToNumber (VStr ''x'') \<noteq> NaN" by simp
      with x show False by simp
    qed
    moreover from iv(1) have "i = 0 \<or> i = 1 \<or> i = 2 \<or> i = 3" by auto
    ultimately show ?thesis using iv(2,3) one by auto
  qed
  with iv(2,5) h show ?thesis by simp
qed

text \<open>
  Claim C5. On an argument that is not an array, each of \<^verbatim>\<open>sum\<close>,
  \<^verbatim>\<open>findDuplicates\<close> and \<^verbatim>\<open>count\<close> returns its "expects an array" error, whatever the
  argument holds; on an array none of the three returns such an error.
\<close>

theorem invalid_argument:
  "(\<not> Array_isArray arr \<longrightarrow>
      sum_js arr = Inl (TypeError ''sum expects an array'')
      \<and> findDuplicates arr = Inl (TypeError ''findDuplicates expects an array'')
      \<and> count arr = Inl (TypeError ''count expects an array''))
   \<and> (Array_isArray arr \<longrightarrow>
      (\<forall>e. sum_js arr = Inl e \<longrightarrow> \<not> InvalidArgument e)
      \<and> (\<forall>e. findDuplicates arr = Inl e \<longrightarrow> \<not> InvalidArgument e)
      \<and> (\<forall>e. count arr = Inl e \<longrightarrow> \<not> InvalidArgument e))"
proof (cases arr)
  case (NonArray v)
  then show ?thesis
    by (simp add: sum_js_def findDuplicates_def count_def)
next
  case (Array a)
  have fd: "\<exists>r. findDuplicates (Array a) = Inr r"
    by (simp add: findDuplicates_def split: prod.split)
  have ct: "\<exists>m. count (Array a) = Inr m"
    by (simp add: count_def)
  have sm: "\<not> InvalidArgument e" if "sum_js (Array a) = Inl e" for e
  proof (cases "\<forall>v\<in>set (present a). ToNumber v \<noteq> NaN")
    case True
    from reduce_sum_ok [OF this, of 0 "Fin 0"] that show ?thesis
      by (simp add: sum_js_def)
  next
    case False
    then have "\<exists>v\<in>set (present a). ToNumber v = NaN" by simp
    from reduce_sum_bad [OF this, of 0 "Fin 0"] that
    obtain k v where "e = not_numeric k v"
      by (auto simp: sum_js_def)
    then show ?thesis
      by (simp add: not_numeric_def InvalidArgument_def)
  qed
  from Array fd ct sm show ?thesis by auto
qed

theorem invalid_argument_witness:
  "\<not> Array_isArray (NonArray (VStr ''12''))
   \<and> sum_js (NonArray (VStr ''12'')) = Inl (TypeError ''sum expects an array'')
   \<and> findDuplicates (NonArray (VStr ''12'')) = Inl (TypeError ''findDuplicates expects an array'')
   \<and> count (NonArray (VStr ''12'')) = Inl (TypeError ''count expects an array'')
   \<and> Array_isArray (Array [Some (VStr ''x'')])
   \<and> sum_js (Array [Some (VStr ''x'')]) = Inl (not_numeric 0 (VStr ''x''))
   \<and> \<not> InvalidArgument (not_numeric 0 (VStr ''x''))"
proof -
  have x: "ToNumber (VStr ''x'') = NaN"
    by code_simp
  then have e: "sum_js (Array [Some (VStr ''x'')]) = Inl (not_numeric 0 (VStr ''x''))"
    by (simp add: sum_js_def sum_step_bad)
  with invalid_argument [of "Array [Some (VStr ''x'')]"]
  have "\<not> InvalidArgument (not_numeric 0 (VStr ''x''))"
    by simp
  with e invalid_argument [of "NonArray (VStr ''12'')"] show ?thesis
    by simp
qed

section \<open>The loop in count\<close>

lemma or_zero_Some [simp]: "or_zero (Some c) = c"
  by (simp add: or_zero_def)

lemma or_zero_None [simp]: "or_zero None = 0"
  by (simp add: or_zero_def)

lemma length_iterate [simp]: "length (iterate a) = length a"
  by (simp add: iterate_def)

lemma count_loop:
  "foldl count_step Map.empty xs =
     (\<lambda>k. if k \<in> set (map ToString xs) then Some (count_list (map ToString xs) k) else None)"
proof (induction xs rule: rev_induct)
  case Nil
  show ?case by simp
next
  case (snoc x xs)
  show ?case
    unfolding foldl_append foldl.simps snoc.IH
    by (rule ext) (simp add: count_step_def Let_def count_list_0_iff)
qed

lemma count_Array:
  "count (Array a) = Inr (\<lambda>k. if k \<in> set (map ToString (iterate a))
                               then Some (count_list (map ToString (iterate a)) k) else None)"
  by (simp add: count_def count_loop)

lemma dom_tally: "dom (\<lambda>k. if k \<in> set ks then Some (count_list ks k) else None) = set ks"
  by (auto simp: dom_def)

lemma sum_tally:
  "(\<Sum>k\<in>set ks. the (if k \<in> set ks then Some (count_list ks k) else None)) = length ks"
proof -
  have "(\<Sum>k\<in>set ks. the (if k \<in> set ks then Some (count_list ks k) else None))
        = (\<Sum>k\<in>set ks. count_list ks k)"
    by (rule sum.cong) simp_all
  also have "\<dots> = length ks"
    by (rule sum_count_set) simp_all
  finally show ?thesis .
qed

text \<open>
  Claim C6. For every array, the counts in the mapping that \<^verbatim>\<open>count\<close> returns add up
  to the length of the array, and its keys are the strings of the elements and nothing
  else: the object has no inherited keys, so that a key such as \<^verbatim>\<open>"constructor"\<close> is
  counted from 0 like any other. The count of the empty array is the empty mapping.
\<close>

theorem count_total:
  "(\<exists>m. count (Array a) = Inr m
        \<and> finite (dom m)
        \<and> (\<Sum>k\<in>dom m. the (m k)) = length a
        \<and> dom m = ToString ` set (iterate a))
   \<and> count (Array []) = Inr Map.empty
   \<and> count (Array [Some (VStr ''constructor'')]) = Inr [''constructor'' \<mapsto> 1]"
proof (intro conjI)
  let ?ks = "map ToString (iterate a)"
  let ?m = "\<lambda>k. if k \<in> set ?ks then Some (count_list ?ks k) else None"
  have d: "dom ?m = set ?ks"
    by (rule dom_tally)
  have "(\<Sum>k\<in>dom ?m. the (?m k)) = length ?ks"
    unfolding d by (rule sum_tally)
  with d have "count (Array a) = Inr ?m \<and> finite (dom ?m)
      \<and> (\<Sum>k\<in>dom ?m. the (?m k)) = length a \<and> dom ?m = ToString ` set (iterate a)"
    by (simp add: count_Array)
  then show "\<exists>m. count (Array a) = Inr m \<and> finite (dom m)
      \<and> (\<Sum>k\<in>dom m. the (m k)) = length a \<and> dom m = ToString ` set (iterate a)"
    by (rule exI [of _ ?m])
next
  show "count (Array []) = Inr Map.empty"
    by (simp add: count_def iterate_def)
next
  show "count (Array [Some (VStr ''constructor'')]) = Inr [''constructor'' \<mapsto> 1]"
    by (simp add: count_def iterate_def count_step_def)
qed

text \<open>
  Claim C10. In \<^verbatim>\<open>count\<close>, a boolean and its string spelling have the same key, while
  as \<^verbatim>\<open>Map\<close> keys of \<^verbatim>\<open>findDuplicates\<close> they are different values. For either boolean
  \<open>b\<close>, with the spelling \<^verbatim>\<open>"true"\<close> or \<^verbatim>\<open>"false"\<close>: after any array, the boolean followed
  by its spelling adds 2 to the count of that one key; \<^verbatim>\<open>count\<close> of the two alone, in
  either order, is the mapping with that single key and the count 2; and
  \<^verbatim>\<open>findDuplicates\<close> returns the empty list on them. In particular
  \<^verbatim>\<open>count([true, "true"])\<close> has the single key \<^verbatim>\<open>"true"\<close> with 2 and
  \<^verbatim>\<open>findDuplicates([true, "true"])\<close> is empty.
\<close>

theorem count_boolean_collision:
  "ToString (VBool b) = (if b then ''true'' else ''false'')
   \<and> ToString (VStr (if b then ''true'' else ''false'')) = ToString (VBool b)
   \<and> \<not> SameValueZero (VBool b) (VStr (if b then ''true'' else ''false''))
   \<and> (\<exists>m. count (Array a) = Inr m
          \<and> count (Array (a @ [Some (VBool b), Some (VStr (if b then ''true'' else ''false''))]))
              = Inr (m((if b then ''true'' else ''false'')
                       \<mapsto> or_zero (m (if b then ''true'' else ''false'')) + 2)))
   \<and> count (Array [Some (VBool b), Some (VStr (if b then ''true'' else ''false''))])
       = Inr [(if b then ''true'' else ''false'') \<mapsto> 2]
   \<and> count (Array [Some (VStr (if b then ''true'' else ''false'')), Some (VBool b)])
       = Inr [(if b then ''true'' else ''false'') \<mapsto> 2]
   \<and> findDuplicates (Array [Some (VBool b), Some (VStr (if b then ''true'' else ''false''))]) = Inr []
   \<and> findDuplicates (Array [Some (VStr (if b then ''true'' else ''false'')), Some (VBool b)]) = Inr []
   \<and> count (Array [Some (VBool True), Some (VStr ''true'')]) = Inr [''true'' \<mapsto> 2]
   \<and> dom [''true'' \<mapsto> (2::nat)] = {''true''}
   \<and> findDuplicates (Array [Some (VBool True), Some (VStr ''true'')]) = Inr []
   \<and> VBool True \<noteq> VStr ''true''"
proof -
  let ?s = "if b then ''true'' else ''false''"
  have key: "ToString (VBool b) = ?s" "ToString (VStr ?s) = ToString (VBool b)"
    by simp_all
  have differ: "\<not> SameValueZero (VBool b) (VStr ?s)"
    by (simp add: SameValueZero_def)
  have after: "\<exists>m. count (Array a) = Inr m
      \<and> count (Array (a @ [Some (VBool b), Some (VStr ?s)])) = Inr (m(?s \<mapsto> or_zero (m ?s) + 2))"
    by (simp add: count_def iterate_def count_step_def Let_def)
  have two: "count (Array [Some (VBool b), Some (VStr ?s)]) = Inr [?s \<mapsto> 2]"
    "count (Array [Some (VStr ?s), Some (VBool b)]) = Inr [?s \<mapsto> 2]"
    by (simp_all add: count_def iterate_def count_step_def numeral_2_eq_2)
  have tt: "findDuplicates (Array [Some (VBool True), Some (VStr ''true'')]) = Inr []"
    by code_simp
  have ff: "findDuplicates (Array [Some (VBool False), Some (VStr ''false'')]) = Inr []"
    by code_simp
  have tt': "findDuplicates (Array [Some (VStr ''true''), Some (VBool True)]) = Inr []"
    by code_simp
  have ff': "findDuplicates (Array [Some (VStr ''false''), Some (VBool False)]) = Inr []"
    by code_simp
  have none: "findDuplicates (Array [Some (VBool b), Some (VStr ?s)]) = Inr []"
    "findDuplicates (Array [Some (VStr ?s), Some (VBool b)]) = Inr []"
    using tt ff tt' ff' by (cases b; simp)+
  have ex: "count (Array [Some (VBool True), Some (VStr ''true'')]) = Inr [''true'' \<mapsto> 2]"
    by (simp add: count_def iterate_def count_step_def numeral_2_eq_2)
  have rest: "dom [''true'' \<mapsto> (2::nat)] = {''true''}" "VBool True \<noteq> VStr ''true''"
    by simp_all
  from key differ after two none ex tt rest show ?thesis
    by (intro conjI)
qed

section \<open>The loops in findDuplicates\<close>

lemma occurrences_count_list:
  "occurrences v xs = count_list (map canonical xs) (canonical v)"
  by (induction xs) (auto simp: occurrences_def SameValueZero_def)

text \<open>After the first loop: every key with its count, and the keys counted twice or more.\<close>

lemma tally_loop:
  "\<exists>dups. foldl tally (Map.empty, []) xs =
      (\<lambda>k. if k \<in> set (map canonical xs) then Some (count_list (map canonical xs) k) else None,
       dups)
     \<and> set dups = {k. 2 \<le> count_list (map canonical xs) k} \<and> distinct dups"
proof (induction xs rule: rev_induct)
  case Nil
  show ?case by simp
next
  case (snoc x xs)
  let ?cs = "map canonical xs"
  let ?c = "canonical x"
  from snoc.IH obtain dups where st:
    "foldl tally (Map.empty, []) xs =
       (\<lambda>k. if k \<in> set ?cs then Some (count_list ?cs k) else None, dups)"
    and dups: "set dups = {k. 2 \<le> count_list ?cs k}" "distinct dups"
    by blast
  let ?dups' = "if count_list ?cs ?c + 1 = 2 then Set_add dups x else dups"
  have prev: "or_zero (Map_get (\<lambda>k. if k \<in> set ?cs then Some (count_list ?cs k) else None) x)
      = count_list ?cs ?c"
    by (simp add: Map_get_def count_list_0_iff)
  have step: "foldl tally (Map.empty, []) (xs @ [x]) =
      (\<lambda>k. if k \<in> set (map canonical (xs @ [x]))
            then Some (count_list (map canonical (xs @ [x])) k) else None, ?dups')"
    unfolding foldl_append foldl.simps st tally_def prod.case prev Let_def
    by (simp add: Map_set_def fun_eq_iff)
  have set': "set ?dups' = {k. 2 \<le> count_list (map canonical (xs @ [x])) k}"
    using dups(1) by (auto simp: Set_add_def)
  have dist': "distinct ?dups'"
    using dups(2) by (simp add: Set_add_def)
  from step set' dist' show ?case by blast
qed

lemma emit_loop:
  "fst (foldl emit (res, dups) xs) = res @ pick (set dups) xs"
proof (induction xs arbitrary: res dups)
  case Nil
  show ?case by simp
next
  case (Cons x xs)
  show ?case
  proof (cases "canonical x \<in> set dups")
    case True
    then have "foldl emit (res, dups) (x # xs)
        = foldl emit (res @ [x], removeAll (canonical x) dups) xs"
      by (simp add: emit_def Set_has_def Set_delete_def)
    with True show ?thesis
      by (simp add: Cons.IH)
  next
    case False
    then have "foldl emit (res, dups) (x # xs) = foldl emit (res, dups) xs"
      by (simp add: emit_def Set_has_def)
    with False show ?thesis
      by (simp add: Cons.IH)
  qed
qed

lemma findDuplicates_pick:
  "findDuplicates (Array a) =
     Inr (pick {k. 2 \<le> count_list (map canonical (iterate a)) k} (iterate a))"
proof -
  from tally_loop [of "iterate a"] obtain counts dups where
    st: "foldl tally (Map.empty, []) (iterate a) = (counts, dups)"
    and dups: "set dups = {k. 2 \<le> count_list (map canonical (iterate a)) k}"
    by blast
  obtain result remaining where
    em: "foldl emit ([], dups) (iterate a) = (result, remaining)"
    by (cases "foldl emit ([], dups) (iterate a)")
  from emit_loop [of "[]" dups "iterate a"] em dups
  have "result = pick {k. 2 \<le> count_list (map canonical (iterate a)) k} (iterate a)"
    by simp
  with st em show ?thesis
    by (simp add: findDuplicates_def)
qed

lemma pick_keys: "set (map canonical (pick S xs)) = S \<inter> set (map canonical xs)"
  by (induction xs arbitrary: S) auto

lemma pick_pending: "u \<in> set (pick S xs) \<Longrightarrow> canonical u \<in> S"
  using pick_keys [of S xs] by auto

lemma pick_distinct: "distinct (map canonical (pick S xs))"
proof (induction xs arbitrary: S)
  case Nil
  show ?case by simp
next
  case (Cons x xs)
  have "canonical x \<notin> set (map canonical (pick (S - {canonical x}) xs))"
    unfolding pick_keys by simp
  with Cons.IH show ?case by simp
qed

lemma pick_subset: "set (pick S xs) \<subseteq> set xs"
  by (induction xs arbitrary: S) auto

lemma first_index_Cons:
  "first_index v (x # xs) = (if SameValueZero v x then 0 else Suc (first_index v xs))"
  by (simp add: first_index_def)

lemma pick_sorted:
  "sorted_wrt (\<lambda>u v. first_index u xs < first_index v xs) (pick S xs)"
proof (induction xs arbitrary: S)
  case Nil
  show ?case by simp
next
  case (Cons x xs)
  let ?S' = "if canonical x \<in> S then S - {canonical x} else S"
  have tail: "\<not> SameValueZero u x" if "u \<in> set (pick ?S' xs)" for u
    using pick_pending [OF that] by (auto simp: SameValueZero_def split: if_splits)
  have sorted_tail: "sorted_wrt (\<lambda>u v. first_index u (x # xs) < first_index v (x # xs)) (pick ?S' xs)"
    by (rule sorted_wrt_mono_rel [OF _ Cons.IH [of ?S']]) (simp add: first_index_Cons tail)
  show ?case
  proof (cases "canonical x \<in> S")
    case True
    have "first_index x (x # xs) < first_index u (x # xs)" if "u \<in> set (pick ?S' xs)" for u
      using tail [OF that] by (simp add: first_index_Cons SameValueZero_def)
    with True sorted_tail show ?thesis by simp
  next
    case False
    with sorted_tail show ?thesis by simp
  qed
qed

lemma ToString_canonical: "ToString (canonical v) = ToString v"
  by (cases v rule: canonical.cases) simp_all

lemma count_list_distinct:
  "distinct xs \<Longrightarrow> count_list xs x = (if x \<in> set xs then 1 else 0)"
  by (induction xs) auto

lemma pick_occurrences:
  "occurrences v (pick {k. 2 \<le> count_list (map canonical xs) k} xs)
     = (if 2 \<le> occurrences v xs then 1 else 0)"
proof -
  let ?S = "{k. 2 \<le> count_list (map canonical xs) k}"
  have "occurrences v (pick ?S xs) = count_list (map canonical (pick ?S xs)) (canonical v)"
    by (rule occurrences_count_list)
  also have "\<dots> = (if canonical v \<in> set (map canonical (pick ?S xs)) then 1 else 0)"
    using pick_distinct [of ?S xs] by (rule count_list_distinct)
  also have "canonical v \<in> set (map canonical (pick ?S xs)) \<longleftrightarrow> 2 \<le> occurrences v xs"
  proof -
    have "canonical v \<in> set (map canonical xs)" if "2 \<le> count_list (map canonical xs) (canonical v)"
      using that count_list_0_iff [of "map canonical xs" "canonical v"] by auto
    then show ?thesis
      unfolding pick_keys occurrences_count_list by auto
  qed
  finally show ?thesis .
qed

text \<open>
  Claim C1. For every array, \<^verbatim>\<open>findDuplicates\<close> returns a list in which a value occurs
  once when it occurs two or more times in the array and not at all otherwise (values
  compared as \<^verbatim>\<open>Map\<close> keys are); every member of the list is an element of the array; and
  the list is ordered by the index of the first occurrence of each value in the array.
  \<^verbatim>\<open>findDuplicates([1,2,2,3,1])\<close> is \<^verbatim>\<open>[1,2]\<close>.
\<close>

theorem findDuplicates_first_occurrence_order:
  "(\<exists>out. findDuplicates (Array a) = Inr out
      \<and> (\<forall>v. occurrences v out = (if 2 \<le> occurrences v (iterate a) then 1 else 0))
      \<and> set out \<subseteq> set (iterate a)
      \<and> sorted_wrt (\<lambda>u v. first_index u (iterate a) < first_index v (iterate a)) out)
   \<and> findDuplicates (Array [Some (VNum (Fin 1)), Some (VNum (Fin 2)), Some (VNum (Fin 2)),
                             Some (VNum (Fin 3)), Some (VNum (Fin 1))])
       = Inr [VNum (Fin 1), VNum (Fin 2)]"
proof
  let ?out = "pick {k. 2 \<le> count_list (map canonical (iterate a)) k} (iterate a)"
  have "findDuplicates (Array a) = Inr ?out
      \<and> (\<forall>v. occurrences v ?out = (if 2 \<le> occurrences v (iterate a) then 1 else 0))
      \<and> set ?out \<subseteq> set (iterate a)
      \<and> sorted_wrt (\<lambda>u v. first_index u (iterate a) < first_index v (iterate a)) ?out"
    by (simp only: findDuplicates_pick pick_occurrences pick_subset pick_sorted simp_thms)
  then show "\<exists>out. findDuplicates (Array a) = Inr out
      \<and> (\<forall>v. occurrences v out = (if 2 \<le> occurrences v (iterate a) then 1 else 0))
      \<and> set out \<subseteq> set (iterate a)
      \<and> sorted_wrt (\<lambda>u v. first_index u (iterate a) < first_index v (iterate a)) out"
    by (rule exI [of _ ?out])
next
  show "findDuplicates (Array [Some (VNum (Fin 1)), Some (VNum (Fin 2)), Some (VNum (Fin 2)),
                             Some (VNum (Fin 3)), Some (VNum (Fin 1))])
       = Inr [VNum (Fin 1), VNum (Fin 2)]"
    by code_simp
qed

text \<open>
  Claim C2. The claim orders the output by the position of each value's second
  occurrence, as the comments of the source do. On \<^verbatim>\<open>[1,2,2,3,1]\<close> the second occurrence
  of 2 (index 2) comes before that of 1 (index 4), and the \<^verbatim>\<open>Set\<close> of duplicates holds 2
  before 1 after the first loop; the function returns \<^verbatim>\<open>[1,2]\<close>.
\<close>

theorem findDuplicates_second_occurrence_order_fails:
  "findDuplicates (Array [Some (VNum (Fin 1)), Some (VNum (Fin 2)), Some (VNum (Fin 2)),
                           Some (VNum (Fin 3)), Some (VNum (Fin 1))])
     = Inr [VNum (Fin 1), VNum (Fin 2)]
   \<and> second_index (VNum (Fin 1)) (iterate [Some (VNum (Fin 1)), Some (VNum (Fin 2)),
        Some (VNum (Fin 2)), Some (VNum (Fin 3)), Some (VNum (Fin 1))]) = 4
   \<and> second_index (VNum (Fin 2)) (iterate [Some (VNum (Fin 1)), Some (VNum (Fin 2)),
        Some (VNum (Fin 2)), Some (VNum (Fin 3)), Some (VNum (Fin 1))]) = 2
   \<and> snd (foldl tally (Map.empty, []) (iterate [Some (VNum (Fin 1)), Some (VNum (Fin 2)),
        Some (VNum (Fin 2)), Some (VNum (Fin 3)), Some (VNum (Fin 1))]))
       = [VNum (Fin 2), VNum (Fin 1)]"
  by code_simp

text \<open>
  Claim C7. For every array, each value that \<^verbatim>\<open>findDuplicates\<close> returns has, under its
  string key, a count of at least 2 in the mapping that \<^verbatim>\<open>count\<close> returns.
\<close>

theorem duplicates_counted_twice:
  "\<exists>out m. findDuplicates (Array a) = Inr out \<and> count (Array a) = Inr m
     \<and> (\<forall>v\<in>set out. \<exists>c. m (ToString v) = Some c \<and> 2 \<le> c)"
proof -
  let ?xs = "iterate a"
  let ?out = "pick {k. 2 \<le> count_list (map canonical ?xs) k} ?xs"
  let ?m = "\<lambda>k. if k \<in> set (map ToString ?xs) then Some (count_list (map ToString ?xs) k) else None"
  have "\<exists>c. ?m (ToString v) = Some c \<and> 2 \<le> c" if "v \<in> set ?out" for v
  proof -
    from pick_pending [OF that] have "2 \<le> count_list (map canonical ?xs) (canonical v)"
      by simp
    also have "\<dots> \<le> count_list (map ToString (map canonical ?xs)) (ToString (canonical v))"
      by (rule count_list_map_ge)
    also have "\<dots> = count_list (map ToString ?xs) (ToString v)"
      by (simp add: ToString_canonical comp_def)
    finally have two: "2 \<le> count_list (map ToString ?xs) (ToString v)" .
    then have "ToString v \<in> set (map ToString ?xs)"
      using count_list_0_iff [of "map ToString ?xs" "ToString v"] by auto
    with two show ?thesis by simp
  qed
  then have "findDuplicates (Array a) = Inr ?out \<and> count (Array a) = Inr ?m
     \<and> (\<forall>v\<in>set ?out. \<exists>c. ?m (ToString v) = Some c \<and> 2 \<le> c)"
    by (simp only: findDuplicates_pick count_Array simp_thms) blast
  then show ?thesis
    by (intro exI [of _ ?out] exI [of _ ?m])
qed

theorem duplicates_counted_twice_witness:
  "findDuplicates (Array [Some (VNum NegZero), Some (VStr ''0''), Some (VNum (Fin 0))]) = Inr [VNum NegZero]
   \<and> (\<exists>m c. count (Array [Some (VNum NegZero), Some (VStr ''0''), Some (VNum (Fin 0))]) = Inr m
          \<and> m ''0'' = Some c \<and> 2 \<le> c)"
proof -
  let ?a = "[Some (VNum NegZero), Some (VStr ''0''), Some (VNum (Fin 0))]"
  have fd: "findDuplicates (Array ?a) = Inr [VNum NegZero]"
    by code_simp
  from duplicates_counted_twice [of ?a] obtain out m where
    "findDuplicates (Array ?a) = Inr out" "count (Array ?a) = Inr m"
    "\<forall>v\<in>set out. \<exists>c. m (ToString v) = Some c \<and> 2 \<le> c"
    by blast
  with fd have "count (Array ?a) = Inr m \<and> (\<exists>c. m ''0'' = Some c \<and> 2 \<le> c)"
    by simp
  with fd show ?thesis by blast
qed

section \<open>Coercions in sum\<close>

lemma reduce_append:
  "reduce f i (a @ b) acc =
     (case reduce f i a acc of Inl e \<Rightarrow> Inl e | Inr acc' \<Rightarrow> reduce f (i + length a) b acc')"
proof (induction a arbitrary: i acc)
  case Nil
  show ?case by simp
next
  case (Cons slot rest)
  show ?case
    by (cases slot) (simp_all add: Cons.IH split: sum.split)
qed

lemma sum_snoc:
  "sum_js (Array a) = Inr t \<Longrightarrow>
   sum_js (Array (a @ [slot])) =
     (case slot of None \<Rightarrow> Inr t | Some v \<Rightarrow> sum_step t v (length a))"
  by (cases slot) (simp_all add: sum_js_def reduce_append split: sum.split)

lemma StringToNumber_empty: "StringToNumber [] = Fin 0"
  by (simp add: StringToNumber_def trim_def)

text \<open>
  Claim C8, with \<^verbatim>\<open>undefined\<close> set apart. In \<^verbatim>\<open>sum\<close>, \<^verbatim>\<open>true\<close> is converted to 1, \<^verbatim>\<open>false\<close> to 0, and
  \<^verbatim>\<open>null\<close> and the empty string to 0, and each adds that number to the total. An
  \<^verbatim>\<open>undefined\<close> element is converted to NaN: \<^verbatim>\<open>sum\<close> fails at it with the error for an
  element that is not numeric. A hole of a sparse array is skipped and leaves the total
  as it is.
\<close>

theorem sum_coercions:
  "ToNumber (VBool True) = Fin 1 \<and> ToNumber (VBool False) = Fin 0
   \<and> ToNumber VNull = Fin 0 \<and> ToNumber (VStr '''') = Fin 0 \<and> ToNumber VUndefined = NaN
   \<and> (sum_js (Array a) = Inr t \<longrightarrow>
        sum_js (Array (a @ [Some (VBool True)])) = Inr (num_add t (Fin 1))
        \<and> sum_js (Array (a @ [Some (VBool False)])) = Inr (num_add t (Fin 0))
        \<and> sum_js (Array (a @ [Some VNull])) = Inr (num_add t (Fin 0))
        \<and> sum_js (Array (a @ [Some (VStr '''')])) = Inr (num_add t (Fin 0))
        \<and> sum_js (Array (a @ [None])) = Inr t
        \<and> sum_js (Array (a @ [Some VUndefined])) = Inl (not_numeric (length a) VUndefined))"
  by (simp add: sum_snoc sum_step_def Number_isNaN_def StringToNumber_empty)

theorem sum_coercions_witness:
  "sum_js (Array [Some (VNum (Fin 5))]) = Inr (Fin 5)
   \<and> sum_js (Array ([Some (VNum (Fin 5))] @ [Some (VBool True)])) = Inr (Fin 6)
   \<and> sum_js (Array ([Some (VNum (Fin 5))] @ [Some VNull])) = Inr (Fin 5)
   \<and> sum_js (Array ([Some (VNum (Fin 5))] @ [Some VUndefined]))
       = Inl (TypeError ''sum: element at index 1 is not numeric: undefined'')"
proof -
  have s: "sum_js (Array [Some (VNum (Fin 5))]) = Inr (Fin 5)"
    by code_simp
  have a1: "num_add (Fin 5) (Fin 1) = Fin 6"
    by code_simp
  have a0: "num_add (Fin 5) (Fin 0) = Fin 5"
    by code_simp
  have e: "not_numeric (length [Some (VNum (Fin 5))]) VUndefined
      = TypeError ''sum: element at index 1 is not numeric: undefined''"
    by code_simp
  from sum_coercions [of "[Some (VNum (Fin 5))]" "Fin 5"] s a1 a0 e show ?thesis
    by simp
qed

text \<open>
  Claim C8 as it is worded does not hold: an \<^verbatim>\<open>undefined\<close> element is not treated as 0.
  \<^verbatim>\<open>sum([5, undefined])\<close> returns no total; it fails at index 1.
\<close>

theorem sum_undefined_counterexample:
  "sum_js (Array [Some (VNum (Fin 5)), Some VUndefined])
     = Inl (TypeError ''sum: element at index 1 is not numeric: undefined'')
   \<and> sum_js (Array [Some (VNum (Fin 5)), Some VUndefined]) \<noteq> Inr (Fin 5)
   \<and> sum_js (Array [Some (VNum (Fin 5)), Some (VStr '''')]) = Inr (Fin 5)"
  by code_simp

section \<open>Two runs on equal inputs\<close>

lemma SameValueZero_cases:
  "SameValueZero v w \<Longrightarrow>
     v = w \<or> (v = VNum NegZero \<and> w = VNum (Fin 0)) \<or> (v = VNum (Fin 0) \<and> w = VNum NegZero)"
  unfolding SameValueZero_def
  by (cases v rule: canonical.cases; cases w rule: canonical.cases) simp_all

lemma SameValueZero_refl [simp]: "SameValueZero v v"
  by (simp add: SameValueZero_def)

lemma same_number_refl [simp]: "same_number x x"
  by (simp add: same_number_def)

lemma same_number_cases:
  "same_number x y \<Longrightarrow> x = y \<or> (x = NegZero \<and> y = Fin 0) \<or> (x = Fin 0 \<and> y = NegZero)"
  unfolding same_number_def by (drule SameValueZero_cases) simp

lemma same_number_zero [simp]: "same_number NegZero (Fin 0)" "same_number (Fin 0) NegZero"
  by (simp_all add: same_number_def SameValueZero_def)

lemma round_double_zero [simp]: "round_double 0 = Fin 0"
  by (simp add: round_double_def)

lemma num_add_same:
  assumes "same_number x x'" "same_number y y'"
  shows "same_number (num_add x y) (num_add x' y')"
  using same_number_cases [OF assms(1)] same_number_cases [OF assms(2)]
  by (auto simp: num_add_def)

lemma ToNumber_same: "SameValueZero v w \<Longrightarrow> same_number (ToNumber v) (ToNumber w)"
  by (drule SameValueZero_cases) auto

lemma ToNumber_NaN_same: "SameValueZero v w \<Longrightarrow> ToNumber v = NaN \<Longrightarrow> v = w"
  by (drule SameValueZero_cases) auto

lemma sum_step_same:
  assumes "SameValueZero v w" "same_number acc acc'"
  shows "rel_sum (=) same_number (sum_step acc v i) (sum_step acc' w i)"
proof (cases "ToNumber v = NaN")
  case True
  with assms(1) have "v = w" by (rule ToNumber_NaN_same)
  with True show ?thesis by (simp add: sum_step_bad)
next
  case False
  with ToNumber_same [OF assms(1)] have "ToNumber w \<noteq> NaN"
    by (auto dest: same_number_cases)
  with False assms show ?thesis
    by (simp add: sum_step_ok num_add_same ToNumber_same)
qed

lemma reduce_sum_same:
  "list_all2 (rel_option SameValueZero) a b \<Longrightarrow> same_number acc acc' \<Longrightarrow>
   rel_sum (=) same_number (reduce sum_step i a acc) (reduce sum_step i b acc')"
proof (induction a b arbitrary: i acc acc' rule: list_all2_induct)
  case Nil
  then show ?case by simp
next
  case (Cons s a t b)
  show ?case
  proof (cases s)
    case None
    with Cons.hyps(1) have "t = None" by (cases t) simp_all
    with None Cons show ?thesis by simp
  next
    case (Some v)
    with Cons.hyps(1) obtain w where w: "t = Some w" "SameValueZero v w"
      by (cases t) simp_all
    from sum_step_same [OF w(2) Cons.prems, of i] show ?thesis
      using Some w(1) Cons.IH [of _ _ "Suc i"]
      by (cases "sum_step acc v i"; cases "sum_step acc' w i") simp_all
  qed
qed

lemma iterate_same:
  "list_all2 (rel_option SameValueZero) a b \<Longrightarrow> list_all2 SameValueZero (iterate a) (iterate b)"
  unfolding iterate_def list_all2_map1 list_all2_map2
  by (erule list_all2_mono) (auto split: option.splits)

lemma canonical_same:
  "list_all2 SameValueZero xs ys \<Longrightarrow> map canonical xs = map canonical ys"
  by (induction xs ys rule: list_all2_induct) (simp_all add: SameValueZero_def)

lemma ToString_same:
  "list_all2 SameValueZero xs ys \<Longrightarrow> map ToString xs = map ToString ys"
proof (induction xs ys rule: list_all2_induct)
  case Nil
  show ?case by simp
next
  case (Cons x xs y ys)
  from Cons.hyps(1) have "ToString x = ToString y"
    using ToString_canonical [of x] ToString_canonical [of y] by (simp add: SameValueZero_def)
  with Cons.IH show ?case by simp
qed

lemma same_arg_refl: "same_arg x x"
  by (cases x) (simp_all add: list_all2_same option.rel_refl)

lemma pick_same:
  "list_all2 SameValueZero xs ys \<Longrightarrow> list_all2 SameValueZero (pick S xs) (pick S ys)"
  by (induction xs ys arbitrary: S rule: list_all2_induct) (simp_all add: SameValueZero_def)

text \<open>
  Claim C9. The three functions are functions of their argument, so two runs on the
  same argument return the same result. More than that, two runs on arguments that are
  equal element by element, as JavaScript compares \<^verbatim>\<open>Map\<close> keys, agree: both fail with
  the same error or both return; the totals of \<^verbatim>\<open>sum\<close> are equal in that sense, the lists
  of \<^verbatim>\<open>findDuplicates\<close> are equal element by element, and the mappings of \<^verbatim>\<open>count\<close> are
  equal.
\<close>

theorem runs_agree:
  assumes "same_arg x y"
  shows "rel_sum (=) same_number (sum_js x) (sum_js y)
       \<and> rel_sum (=) (list_all2 SameValueZero) (findDuplicates x) (findDuplicates y)
       \<and> count x = count y"
proof (cases x; cases y)
  fix a b assume xy: "x = Array a" "y = Array b"
  with assms have ab: "list_all2 (rel_option SameValueZero) a b" by simp
  then have it: "list_all2 SameValueZero (iterate a) (iterate b)"
    by (rule iterate_same)
  have "rel_sum (=) same_number (sum_js (Array a)) (sum_js (Array b))"
    using reduce_sum_same [OF ab, of "Fin 0" "Fin 0" 0] by (simp add: sum_js_def)
  moreover have "rel_sum (=) (list_all2 SameValueZero) (findDuplicates (Array a)) (findDuplicates (Array b))"
    using pick_same [OF it] canonical_same [OF it] by (simp add: findDuplicates_pick)
  moreover have "count (Array a) = count (Array b)"
    by (simp only: count_Array ToString_same [OF it])
  ultimately show ?thesis using xy by simp
next
  fix v w assume "x = NonArray v" "y = NonArray w"
  then show ?thesis by (simp add: sum_js_def findDuplicates_def count_def)
next
  fix a w assume "x = Array a" "y = NonArray w"
  with assms show ?thesis by simp
next
  fix v b assume "x = NonArray v" "y = Array b"
  with assms show ?thesis by simp
qed

theorem runs_agree_witness:
  "same_arg (Array [Some (VNum NegZero), Some (VNum (Fin 0)), None, Some (VNum NaN)])
            (Array [Some (VNum (Fin 0)), Some (VNum NegZero), None, Some (VNum NaN)])
   \<and> sum_js (Array [Some (VNum (Fin 0)), Some (VNum NegZero), None, Some (VNum NaN)])
       = Inl (TypeError ''sum: element at index 3 is not numeric: null'')
   \<and> rel_sum (=) (list_all2 SameValueZero) (Inr [VNum NegZero])
        (findDuplicates (Array [Some (VNum (Fin 0)), Some (VNum NegZero), None, Some (VNum NaN)]))
   \<and> count (Array [Some (VNum NegZero), Some (VNum (Fin 0)), None, Some (VNum NaN)])
       = count (Array [Some (VNum (Fin 0)), Some (VNum NegZero), None, Some (VNum NaN)])"
proof -
  let ?x = "Array [Some (VNum NegZero), Some (VNum (Fin 0)), None, Some (VNum NaN)]"
  let ?y = "Array [Some (VNum (Fin 0)), Some (VNum NegZero), None, Some (VNum NaN)]"
  have same: "same_arg ?x ?y"
    by (simp add: SameValueZero_def)
  have s: "sum_js ?x = Inl (TypeError ''sum: element at index 3 is not numeric: null'')"
    by code_simp
  have f: "findDuplicates ?x = Inr [VNum NegZero]"
    by code_simp
  from runs_agree [OF same] s f same show ?thesis
    by (cases "sum_js ?y"; cases "findDuplicates ?y") simp_all
qed

end
